theory Spec2Isabelle
  imports Main "HOL-Library.Word" "HOL-Library.Monad_Syntax"
begin

unbundle bit_operations_syntax

section \<open>The machine the driver runs on\<close>

text \<open>
  The driver (sEEPROM.cpp, sEEPROM.h) works on raw addresses of a 32-bit target: the
  EEPROM window, the caller's buffers and nothing in between. Memory is therefore one flat
  byte store indexed by 32-bit addresses, so that a buffer passed as \<open>void*\<close> is an
  address and a read past its end is a read of whatever lies there.

  The FLASH peripheral is seen through the three registers the driver touches:
  \<open>PECR\<close> (read and written), \<open>PEKEYR\<close> (written only) and \<open>SR\<close> (read only).
  \<open>SR\<close> is driven by the hardware, so its readings are an input of the model: \<open>SR h k\<close>
  is the value the \<open>k\<close>-th read returns and \<open>sr_reads h\<close> counts the reads made so far.
  Every access to memory and every register write is appended to \<open>trace\<close>, in program
  order.

  Outside the model: the alignment faults of the target, the reaction of the controller
  to what is written (a register holds what the driver wrote last), and the registers'
  own addresses, which are kept apart from \<open>mem\<close>. The instruction \<open>__WFI()\<close> is
  recorded in the trace and taken to return.
\<close>

type_synonym addr = "32 word"
type_synonym byte = "8 word"

datatype event =
    KeyWrite "32 word"
  | PecrWrite "32 word"
  | Load addr nat
  | Store addr "byte list"
  | Wfi

record machine =
  mem :: "addr \<Rightarrow> byte"
  PECR :: "32 word"
  SR :: "nat \<Rightarrow> 32 word"
  sr_reads :: nat
  trace :: "event list"

text \<open>
  The bit masks \<open>FLASH_SR_BSY\<close>, \<open>FLASH_PECR_ERASE\<close> and \<open>FLASH_PECR_PELOCK\<close> come
  from the vendor's device header (stm32l051xx.h), which is not part of the driver. They
  are parameters of the model.
\<close>

record cmsis =
  FLASH_SR_BSY :: "32 word"
  FLASH_PECR_ERASE :: "32 word"
  FLASH_PECR_PELOCK :: "32 word"

text \<open>sEEPROM.h, lines 56-58 and 66-67.\<close>

definition SEEPROM_NOK :: "8 word" where "SEEPROM_NOK = 0"
definition SEEPROM_OK :: "8 word" where "SEEPROM_OK = 1"
definition SEEPROM_OF :: "8 word" where "SEEPROM_OF = 2"

definition PEKEY_VALUE_1 :: "32 word" where "PEKEY_VALUE_1 = 0x89ABCDEF"
definition PEKEY_VALUE_2 :: "32 word" where "PEKEY_VALUE_2 = 0x02030405"

text \<open>The object of class \<open>sEEPROM\<close>: its two private fields (sEEPROM.h, lines 133-134).\<close>

record sEEPROM =
  start :: "32 word"
  length' :: "16 word"

subsection \<open>Memory accesses\<close>

text \<open>
  An element of type \<open>T\<close> is the \<open>sizeof(T)\<close> bytes at its address. \<open>load\<close> reads
  them, \<open>store\<close> writes them; address arithmetic wraps at 32 bits.
\<close>

definition load :: "nat \<Rightarrow> (addr \<Rightarrow> byte) \<Rightarrow> addr \<Rightarrow> byte list" where
  "load w m a = map (\<lambda>i. m (a + of_nat i)) [0..<w]"

definition store :: "(addr \<Rightarrow> byte) \<Rightarrow> addr \<Rightarrow> byte list \<Rightarrow> (addr \<Rightarrow> byte)" where
  "store m a bs = (\<lambda>x. if unat (x - a) < length bs then bs ! unat (x - a) else m x)"

text \<open>The assignment \<open>dst[0] = src[0]\<close> for elements of \<open>w\<close> bytes.\<close>

definition copy_elem :: "nat \<Rightarrow> addr \<Rightarrow> addr \<Rightarrow> machine \<Rightarrow> machine" where
  "copy_elem w dst src h =
     h\<lparr>mem := store (mem h) dst (load w (mem h) src),
       trace := trace h @ [Load src w, Store dst (load w (mem h) src)]\<rparr>"

text \<open>The assignment \<open>*dst = 0x00\<close> through a \<open>uint32_t*\<close>.\<close>

definition zero_word :: "addr \<Rightarrow> machine \<Rightarrow> machine" where
  "zero_word dst h =
     h\<lparr>mem := store (mem h) dst [0, 0, 0, 0],
       trace := trace h @ [Store dst [0, 0, 0, 0]]\<rparr>"

subsection \<open>Register accesses\<close>

text \<open>
  The loop \<open>while (FLASH->SR & FLASH_SR_BSY);\<close> (sEEPROM.h, lines 155, 174, 199). Each
  turn reads \<open>SR\<close> once. Nothing bounds the number of turns, so the loop is a partial
  function: \<open>None\<close> is the call that never returns.
\<close>

partial_function (option) wait_while_busy :: "cmsis \<Rightarrow> machine \<Rightarrow> machine option" where
  "wait_while_busy c h =
     (if SR h (sr_reads h) AND FLASH_SR_BSY c \<noteq> 0
      then wait_while_busy c (h\<lparr>sr_reads := sr_reads h + 1\<rparr>)
      else Some (h\<lparr>sr_reads := sr_reads h + 1\<rparr>))"

declare wait_while_busy.simps [code]

definition write_PEKEYR :: "32 word \<Rightarrow> machine \<Rightarrow> machine" where
  "write_PEKEYR v h = h\<lparr>trace := trace h @ [KeyWrite v]\<rparr>"

definition write_PECR :: "32 word \<Rightarrow> machine \<Rightarrow> machine" where
  "write_PECR v h = h\<lparr>PECR := v, trace := trace h @ [PecrWrite v]\<rparr>"

definition WFI :: "machine \<Rightarrow> machine" where
  "WFI h = h\<lparr>trace := trace h @ [Wfi]\<rparr>"

text \<open>sEEPROM.h, lines 171-179.\<close>

definition unlockEEPROM :: "cmsis \<Rightarrow> machine \<Rightarrow> machine option" where
  "unlockEEPROM c h =
     do {
       h1 \<leftarrow> wait_while_busy c h;
       Some (write_PEKEYR PEKEY_VALUE_2 (write_PEKEYR PEKEY_VALUE_1 h1))
     }"

text \<open>sEEPROM.h, lines 196-203.\<close>

definition lockEEPROM :: "cmsis \<Rightarrow> machine \<Rightarrow> machine option" where
  "lockEEPROM c h =
     do {
       h1 \<leftarrow> wait_while_busy c h;
       Some (write_PECR (PECR h1 OR FLASH_PECR_PELOCK c) h1)
     }"

section \<open>The driver\<close>

subsection \<open>read (sEEPROM.cpp, lines 47-66)\<close>

text \<open>
  The \<open>do ... while (idx != len)\<close> loop with its 16-bit index. The body runs before the
  test, and \<open>idx++\<close> wraps at 16 bits.
\<close>

function read_loop :: "addr \<Rightarrow> addr \<Rightarrow> 16 word \<Rightarrow> 16 word \<Rightarrow> machine \<Rightarrow> machine" where
  "read_loop addr output len idx h =
     (if idx + 1 \<noteq> len
      then read_loop addr output len (idx + 1)
             (copy_elem 1 (output + ucast idx) (addr + ucast idx) h)
      else copy_elem 1 (output + ucast idx) (addr + ucast idx) h)"
  by pat_completeness auto
termination
proof (relation "measure (\<lambda>(addr, output, len, idx, h). unat (len - idx - 1))")
  fix len idx :: "16 word"
  assume "idx + 1 \<noteq> len"
  then have nz: "len - idx - 1 \<noteq> 0" by (metis add.commute diff_add_cancel eq_iff_diff_eq_0)
  have dec: "unat (x - 1) < unat x" if "x \<noteq> 0" for x :: "16 word"
    using that by (simp add: unat_minus_one unat_gt_0)
  have "len - (idx + 1) - 1 = len - idx - 1 - 1" by simp
  with dec [OF nz] have "unat (len - (idx + 1) - 1) < unat (len - idx - 1)" by (simp only:)
  then show "\<And>addr output h. ((addr, output, len, idx + 1,
        copy_elem 1 (output + ucast idx) (addr + ucast idx) h),
       (addr, output, len, idx, h))
      \<in> measure (\<lambda>(addr, output, len, idx, h). unat (len - idx - 1))"
    by (simp only: in_measure prod.case)
qed simp

definition read :: "sEEPROM \<Rightarrow> 16 word \<Rightarrow> addr \<Rightarrow> 16 word \<Rightarrow> machine \<Rightarrow> 8 word \<times> machine" where
  "read e startOffset output len h =
     (if start e + ucast startOffset + ucast len < start e + ucast len
      then (SEEPROM_OF, h)
      else (SEEPROM_OK, read_loop (start e + ucast startOffset) output len 0 h))"

subsection \<open>The backend write (sEEPROM.h, lines 147-164)\<close>

text \<open>
  \<open>w\<close> is \<open>sizeof(T)\<close>. The loop has the shape of the one in \<open>read\<close>, with the busy
  wait before each element.
\<close>

function write_T_loop ::
  "nat \<Rightarrow> cmsis \<Rightarrow> addr \<Rightarrow> addr \<Rightarrow> 16 word \<Rightarrow> 16 word \<Rightarrow> machine \<Rightarrow> machine option" where
  "write_T_loop w c startAddr val len idx h =
     (case wait_while_busy c h of
        None \<Rightarrow> None
      | Some h1 \<Rightarrow>
          if idx + 1 \<noteq> len
          then write_T_loop w c startAddr val len (idx + 1)
                 (copy_elem w (startAddr + of_nat w * ucast idx) (val + of_nat w * ucast idx) h1)
          else Some (copy_elem w (startAddr + of_nat w * ucast idx) (val + of_nat w * ucast idx) h1))"
  by pat_completeness auto
termination
proof (relation "measure (\<lambda>(w, c, startAddr, val, len, idx, h). unat (len - idx - 1))", goal_cases)
  case 1
  show ?case by simp
next
  case (2 w c startAddr val len idx h h1)
  then have nz: "len - idx - 1 \<noteq> 0" by (metis add.commute diff_add_cancel eq_iff_diff_eq_0)
  have dec: "unat (x - 1) < unat x" if "x \<noteq> 0" for x :: "16 word"
    using that by (simp add: unat_minus_one unat_gt_0)
  have "len - (idx + 1) - 1 = len - idx - 1 - 1" by simp
  with dec [OF nz] have "unat (len - (idx + 1) - 1) < unat (len - idx - 1)" by (simp only:)
  then show ?case by (simp only: in_measure prod.case)
qed

definition write_T :: "nat \<Rightarrow> cmsis \<Rightarrow> addr \<Rightarrow> addr \<Rightarrow> 16 word \<Rightarrow> machine \<Rightarrow> machine option" where
  "write_T w c startAddr val len h = write_T_loop w c startAddr val len 0 h"

subsection \<open>write (sEEPROM.cpp, lines 68-109)\<close>

text \<open>
  \<open>startOffset\<close> is a \<open>uint16_t\<close>, so \<open>startOffset += ...\<close> wraps at 16 bits.
  The source pointer of the 2-byte group is \<open>(uint16_t*)value + startOffset\<close>, which is
  \<open>2 * startOffset\<close> bytes past \<open>value\<close>; the one of the 1-byte group is
  \<open>(uint8_t*)value + startOffset\<close>. (The function is \<open>write'\<close> here because
  \<open>write\<close> is a reserved word of the prover.)
\<close>

definition write' ::
  "cmsis \<Rightarrow> sEEPROM \<Rightarrow> 16 word \<Rightarrow> addr \<Rightarrow> 16 word \<Rightarrow> machine \<Rightarrow> (8 word \<times> machine) option" where
  "write' c e startOffset val len h =
     (if start e + ucast startOffset + ucast len < start e + ucast len
      then Some (SEEPROM_OF, h)
      else do {
        h1 \<leftarrow> unlockEEPROM c h;
        let len4 = len div 4;
        let len_a = len mod 4;
        let len2 = len_a div 2;
        let len_b = len_a mod 2;
        (startOffset1, h2) \<leftarrow>
          (if len4 \<noteq> 0
           then do {
             h' \<leftarrow> write_T 4 c (start e + ucast startOffset) val len4 h1;
             Some (startOffset + len4 * 4, h')
           }
           else Some (startOffset, h1));
        (startOffset2, h3) \<leftarrow>
          (if len2 \<noteq> 0
           then do {
             h' \<leftarrow> write_T 2 c (start e + ucast startOffset1) (val + 2 * ucast startOffset1) len2 h2;
             Some (startOffset1 + len2 * 2, h')
           }
           else Some (startOffset1, h2));
        h4 \<leftarrow>
          (if len_b \<noteq> 0
           then write_T 1 c (start e + ucast startOffset2) (val + ucast startOffset2) len_b h3
           else Some h3);
        h5 \<leftarrow> lockEEPROM c h4;
        Some (SEEPROM_OK, h5)
      })"

subsection \<open>erase (sEEPROM.cpp, lines 111-148)\<close>

function erase_loop :: "addr \<Rightarrow> 16 word \<Rightarrow> 16 word \<Rightarrow> machine \<Rightarrow> machine" where
  "erase_loop addr len idx h =
     (if idx + 1 \<noteq> len
      then erase_loop addr len (idx + 1) (WFI (zero_word (addr + 4 * ucast idx) h))
      else WFI (zero_word (addr + 4 * ucast idx) h))"
  by pat_completeness auto
termination
proof (relation "measure (\<lambda>(addr, len, idx, h). unat (len - idx - 1))", goal_cases)
  case 1
  show ?case by simp
next
  case (2 addr len idx h)
  then have nz: "len - idx - 1 \<noteq> 0" by (metis add.commute diff_add_cancel eq_iff_diff_eq_0)
  have dec: "unat (x - 1) < unat x" if "x \<noteq> 0" for x :: "16 word"
    using that by (simp add: unat_minus_one unat_gt_0)
  have "len - (idx + 1) - 1 = len - idx - 1 - 1" by simp
  with dec [OF nz] have "unat (len - (idx + 1) - 1) < unat (len - idx - 1)" by (simp only:)
  then show ?case by (simp only: in_measure prod.case)
qed

definition erase ::
  "cmsis \<Rightarrow> sEEPROM \<Rightarrow> 16 word \<Rightarrow> 16 word \<Rightarrow> machine \<Rightarrow> (8 word \<times> machine) option" where
  "erase c e startOffset len h =
     (if startOffset mod 4 \<noteq> 0 then Some (SEEPROM_NOK, h)
      else if start e + ucast startOffset + ucast len * 4 < start e + ucast len * 4
      then Some (SEEPROM_OF, h)
      else do {
        h1 \<leftarrow> unlockEEPROM c h;
        let h2 = write_PECR (PECR h1 OR FLASH_PECR_ERASE c) h1;
        let h3 = erase_loop (start e + ucast startOffset) len 0 h2;
        let h4 = write_PECR (PECR h3 AND NOT (FLASH_PECR_ERASE c)) h3;
        h5 \<leftarrow> lockEEPROM c h4;
        Some (SEEPROM_OK, h5)
      })"

section \<open>Vocabulary of the properties\<close>

text \<open>
  The busy-wait loops return only if the controller reports "not busy" again and again:
  whatever the number of reads already made, a later read of \<open>SR\<close> has the busy bit
  clear. This is the assumption on the hardware under which a mutating call returns.
\<close>

definition eventually_ready :: "cmsis \<Rightarrow> (nat \<Rightarrow> 32 word) \<Rightarrow> bool" where
  "eventually_ready c sr \<longleftrightarrow> (\<forall>n. \<exists>m\<ge>n. sr m AND FLASH_SR_BSY c = 0)"

text \<open>Events of the copy loops, and events of the erase loop.\<close>

fun is_mem_access :: "event \<Rightarrow> bool" where
  "is_mem_access (Load a n) = True"
| "is_mem_access (Store a bs) = True"
| "is_mem_access ev = False"

fun is_erase_step :: "event \<Rightarrow> bool" where
  "is_erase_step (Store a bs) = (bs = [0, 0, 0, 0])"
| "is_erase_step Wfi = True"
| "is_erase_step ev = False"

text \<open>
  \<open>accesses_only h h'\<close>: from \<open>h\<close> to \<open>h'\<close> the registers were left alone and the
  trace grew by memory accesses only.
\<close>

definition accesses_only :: "machine \<Rightarrow> machine \<Rightarrow> bool" where
  "accesses_only h h' \<longleftrightarrow>
     SR h' = SR h \<and> PECR h' = PECR h \<and>
     (\<exists>evs. trace h' = trace h @ evs \<and> list_all is_mem_access evs)"

text \<open>
  Concrete inputs for the examples: the masks of the STM32L051 device header (\<open>BSY\<close> is
  bit 0 of \<open>SR\<close>, \<open>PELOCK\<close> bit 0 and \<open>ERASE\<close> bit 9 of \<open>PECR\<close>), and a locked
  controller that is never busy, with memory \<open>m\<close> and an empty trace.
\<close>

definition stm32l051 :: cmsis where
  "stm32l051 = \<lparr>FLASH_SR_BSY = 0x1, FLASH_PECR_ERASE = 0x200, FLASH_PECR_PELOCK = 0x1\<rparr>"

definition idle :: "(addr \<Rightarrow> byte) \<Rightarrow> machine" where
  "idle m = \<lparr>mem = m, PECR = 0x1, SR = (\<lambda>k. 0), sr_reads = 0, trace = []\<rparr>"

declare read_loop.simps [simp del]
declare write_T_loop.simps [simp del]
declare erase_loop.simps [simp del]

section \<open>The busy wait, unlock and lock\<close>

lemma wait_returns_after:
  "SR h (sr_reads h + d) AND FLASH_SR_BSY c = 0
    \<Longrightarrow> \<exists>k. wait_while_busy c h = Some (h\<lparr>sr_reads := k\<rparr>)"
proof (induction d arbitrary: h)
  case 0
  then show ?case by (subst wait_while_busy.simps) auto
next
  case (Suc d)
  show ?case
  proof (cases "SR h (sr_reads h) AND FLASH_SR_BSY c = 0")
    case True
    then show ?thesis by (subst wait_while_busy.simps) auto
  next
    case False
    let ?h = "h\<lparr>sr_reads := sr_reads h + 1\<rparr>"
    from Suc.prems have "SR ?h (sr_reads ?h + d) AND FLASH_SR_BSY c = 0" by simp
    from Suc.IH [OF this] obtain k where "wait_while_busy c ?h = Some (?h\<lparr>sr_reads := k\<rparr>)" ..
    with False show ?thesis by (subst wait_while_busy.simps) auto
  qed
qed

lemma wait_returns:
  assumes "eventually_ready c (SR h)"
  shows "\<exists>k. wait_while_busy c h = Some (h\<lparr>sr_reads := k\<rparr>)"
proof -
  from assms obtain m where "m \<ge> sr_reads h" "SR h m AND FLASH_SR_BSY c = 0"
    unfolding eventually_ready_def by blast
  then have "SR h (sr_reads h + (m - sr_reads h)) AND FLASH_SR_BSY c = 0" by simp
  then show ?thesis by (rule wait_returns_after)
qed

lemma unlock_returns:
  assumes "eventually_ready c (SR h)"
  shows "\<exists>k. unlockEEPROM c h =
    Some (h\<lparr>sr_reads := k, trace := trace h @ [KeyWrite PEKEY_VALUE_1, KeyWrite PEKEY_VALUE_2]\<rparr>)"
proof -
  from wait_returns [OF assms] obtain k where "wait_while_busy c h = Some (h\<lparr>sr_reads := k\<rparr>)" ..
  then have "unlockEEPROM c h =
    Some (h\<lparr>sr_reads := k, trace := trace h @ [KeyWrite PEKEY_VALUE_1, KeyWrite PEKEY_VALUE_2]\<rparr>)"
    by (simp add: unlockEEPROM_def write_PEKEYR_def)
  then show ?thesis ..
qed

lemma lock_returns:
  assumes "eventually_ready c (SR h)"
  shows "\<exists>k. lockEEPROM c h =
    Some (h\<lparr>sr_reads := k, PECR := PECR h OR FLASH_PECR_PELOCK c,
            trace := trace h @ [PecrWrite (PECR h OR FLASH_PECR_PELOCK c)]\<rparr>)"
proof -
  from wait_returns [OF assms] obtain k where "wait_while_busy c h = Some (h\<lparr>sr_reads := k\<rparr>)" ..
  then have "lockEEPROM c h =
    Some (h\<lparr>sr_reads := k, PECR := PECR h OR FLASH_PECR_PELOCK c,
            trace := trace h @ [PecrWrite (PECR h OR FLASH_PECR_PELOCK c)]\<rparr>)"
    by (simp add: lockEEPROM_def write_PECR_def)
  then show ?thesis ..
qed

lemma accesses_only_refl: "accesses_only h h"
  by (simp add: accesses_only_def)

lemma accesses_only_trans:
  "accesses_only h1 h2 \<Longrightarrow> accesses_only h2 h3 \<Longrightarrow> accesses_only h1 h3"
  by (auto simp: accesses_only_def)

lemma accesses_only_copy:
  "accesses_only h (copy_elem w dst src (h\<lparr>sr_reads := k\<rparr>))"
  by (simp add: accesses_only_def copy_elem_def)

lemma write_T_loop_returns:
  "eventually_ready c (SR h)
    \<Longrightarrow> \<exists>h'. write_T_loop w c startAddr val len idx h = Some h' \<and> accesses_only h h'"
proof (induction w c startAddr val len idx h rule: write_T_loop.induct)
  case (1 w c startAddr val len idx h)
  from wait_returns [OF "1.prems"] obtain k
    where k: "wait_while_busy c h = Some (h\<lparr>sr_reads := k\<rparr>)" ..
  let ?h2 = "copy_elem w (startAddr + of_nat w * ucast idx) (val + of_nat w * ucast idx)
               (h\<lparr>sr_reads := k\<rparr>)"
  have a: "accesses_only h ?h2" by (rule accesses_only_copy)
  show ?case
  proof (cases "idx + 1 \<noteq> len")
    case True
    from a "1.prems" have "eventually_ready c (SR ?h2)" by (simp add: accesses_only_def)
    from "1.IH" [OF k True this] obtain h'
      where "write_T_loop w c startAddr val len (idx + 1) ?h2 = Some h'" "accesses_only ?h2 h'"
      by blast
    with a k True show ?thesis
      by (subst write_T_loop.simps) (auto intro: accesses_only_trans)
  next
    case False
    with a k show ?thesis by (subst write_T_loop.simps) auto
  qed
qed

lemma write_T_returns:
  "eventually_ready c (SR h)
    \<Longrightarrow> \<exists>h'. write_T w c startAddr val len h = Some h' \<and> accesses_only h h'"
  unfolding write_T_def by (rule write_T_loop_returns)

lemma wait_not_busy:
  "SR h (sr_reads h) AND FLASH_SR_BSY c = 0
    \<Longrightarrow> wait_while_busy c h = Some (h\<lparr>sr_reads := sr_reads h + 1\<rparr>)"
  by (subst wait_while_busy.simps) simp

lemma unat_m1_32: "unat (- 1 :: 32 word) = 4294967295"
  by (simp add: unat_minus_one unsigned_minus_1_eq_mask mask_eq_exp_minus_1)

lemma upt_4: "[0..<4] = [0, 1, 2, 3]" by (simp add: upt_rec)
lemma upt_2: "[0..<2] = [0, 1]" by (simp add: upt_rec)
lemma upt_6: "[0..<6] = [0, 1, 2, 3, 4, 5]" by (simp add: upt_rec)

lemma write_ok_trace:
  assumes er: "eventually_ready c (SR h)"
    and nc: "\<not> start e + ucast startOffset + ucast len < start e + ucast len"
  shows "\<exists>h' body. write' c e startOffset val len h = Some (SEEPROM_OK, h') \<and>
           SR h' = SR h \<and>
           PECR h' = PECR h OR FLASH_PECR_PELOCK c \<and>
           trace h' = trace h @ [KeyWrite PEKEY_VALUE_1, KeyWrite PEKEY_VALUE_2] @ body
                        @ [PecrWrite (PECR h')] \<and>
           list_all is_mem_access body"
proof -
  from unlock_returns [OF er] obtain k1 where
    u: "unlockEEPROM c h = Some (h\<lparr>sr_reads := k1,
          trace := trace h @ [KeyWrite PEKEY_VALUE_1, KeyWrite PEKEY_VALUE_2]\<rparr>)" ..
  define h1 where "h1 = h\<lparr>sr_reads := k1,
          trace := trace h @ [KeyWrite PEKEY_VALUE_1, KeyWrite PEKEY_VALUE_2]\<rparr>"
  have er1: "eventually_ready c (SR h1)" using er by (simp add: h1_def)
  have "\<exists>so1 h2. (if len div 4 \<noteq> 0
           then do {
             h' \<leftarrow> write_T 4 c (start e + ucast startOffset) val (len div 4) h1;
             Some (startOffset + len div 4 * 4, h')
           }
           else Some (startOffset, h1)) = Some (so1, h2) \<and> accesses_only h1 h2"
    using write_T_returns [OF er1, of 4 "start e + ucast startOffset" val "len div 4"]
    by (auto simp: accesses_only_refl)
  then obtain so1 h2 where s1: "(if len div 4 \<noteq> 0
           then do {
             h' \<leftarrow> write_T 4 c (start e + ucast startOffset) val (len div 4) h1;
             Some (startOffset + len div 4 * 4, h')
           }
           else Some (startOffset, h1)) = Some (so1, h2)" and a1: "accesses_only h1 h2"
    by blast
  have er2: "eventually_ready c (SR h2)" using er1 a1 by (simp add: accesses_only_def)
  have "\<exists>so2 h3. (if len mod 4 div 2 \<noteq> 0
           then do {
             h' \<leftarrow> write_T 2 c (start e + ucast so1) (val + 2 * ucast so1) (len mod 4 div 2) h2;
             Some (so1 + len mod 4 div 2 * 2, h')
           }
           else Some (so1, h2)) = Some (so2, h3) \<and> accesses_only h2 h3"
    using write_T_returns [OF er2, of 2 "start e + ucast so1" "val + 2 * ucast so1" "len mod 4 div 2"]
    by (auto simp: accesses_only_refl)
  then obtain so2 h3 where s2: "(if len mod 4 div 2 \<noteq> 0
           then do {
             h' \<leftarrow> write_T 2 c (start e + ucast so1) (val + 2 * ucast so1) (len mod 4 div 2) h2;
             Some (so1 + len mod 4 div 2 * 2, h')
           }
           else Some (so1, h2)) = Some (so2, h3)" and a2: "accesses_only h2 h3"
    by blast
  have er3: "eventually_ready c (SR h3)" using er2 a2 by (simp add: accesses_only_def)
  have "\<exists>h4. (if len mod 4 mod 2 \<noteq> 0
           then write_T 1 c (start e + ucast so2) (val + ucast so2) (len mod 4 mod 2) h3
           else Some h3) = Some h4 \<and> accesses_only h3 h4"
    using write_T_returns [OF er3, of 1 "start e + ucast so2" "val + ucast so2" "len mod 4 mod 2"]
    by (auto simp: accesses_only_refl)
  then obtain h4 where s3: "(if len mod 4 mod 2 \<noteq> 0
           then write_T 1 c (start e + ucast so2) (val + ucast so2) (len mod 4 mod 2) h3
           else Some h3) = Some h4" and a3: "accesses_only h3 h4"
    by blast
  have a: "accesses_only h1 h4"
    using a1 a2 a3 by (blast intro: accesses_only_trans)
  then have er4: "eventually_ready c (SR h4)" using er1 by (simp add: accesses_only_def)
  from lock_returns [OF er4] obtain k5 where
    l: "lockEEPROM c h4 = Some (h4\<lparr>sr_reads := k5, PECR := PECR h4 OR FLASH_PECR_PELOCK c,
            trace := trace h4 @ [PecrWrite (PECR h4 OR FLASH_PECR_PELOCK c)]\<rparr>)" ..
  define h5 where "h5 = h4\<lparr>sr_reads := k5, PECR := PECR h4 OR FLASH_PECR_PELOCK c,
            trace := trace h4 @ [PecrWrite (PECR h4 OR FLASH_PECR_PELOCK c)]\<rparr>"
  have w: "write' c e startOffset val len h = Some (SEEPROM_OK, h5)"
    unfolding write'_def Let_def
    by (simp only: nc if_False u h1_def [symmetric] s1 s2 s3 l h5_def [symmetric]
        bind.bind_lunit prod.case)
  from a obtain body where b: "trace h4 = trace h1 @ body" "list_all is_mem_access body"
    and p: "PECR h4 = PECR h1" and s: "SR h4 = SR h1"
    by (auto simp: accesses_only_def)
  have "SR h5 = SR h" using s by (simp add: h5_def h1_def)
  moreover have "PECR h5 = PECR h OR FLASH_PECR_PELOCK c" using p by (simp add: h5_def h1_def)
  moreover have "trace h5 = trace h @ [KeyWrite PEKEY_VALUE_1, KeyWrite PEKEY_VALUE_2] @ body
                        @ [PecrWrite (PECR h5)]"
    using b p by (simp add: h5_def h1_def)
  ultimately show ?thesis using w b(2) by blast
qed


section \<open>The loops\<close>

lemma loop_count_step:
  fixes len idx :: "16 word"
  assumes "idx + 1 \<noteq> len"
  shows "unat (len - idx - 1) = Suc (unat (len - (idx + 1) - 1))"
proof -
  from assms have nz: "len - idx - 1 \<noteq> 0" by (metis add.commute diff_add_cancel eq_iff_diff_eq_0)
  then have "0 < unat (len - idx - 1)" by (simp add: unat_gt_0)
  moreover have "unat (len - idx - 1 - 1) = unat (len - idx - 1) - 1"
    using nz by (rule unat_minus_one)
  moreover have "len - (idx + 1) - 1 = len - idx - 1 - 1" by simp
  ultimately show ?thesis by (simp only:)
qed

lemma loop_count_last:
  fixes len idx :: "16 word"
  assumes "\<not> idx + 1 \<noteq> len"
  shows "unat (len - idx - 1) = 0"
  using assms by auto

lemma read_loop_trace:
  "\<exists>body. trace (read_loop addr out len idx h) = trace h @ body \<and>
          length body = 2 * Suc (unat (len - idx - 1)) \<and> list_all is_mem_access body"
proof (induction addr out len idx h rule: read_loop.induct)
  case (1 addr out len idx h)
  let ?h1 = "copy_elem 1 (out + ucast idx) (addr + ucast idx) h"
  have t1: "trace ?h1 = trace h @ [Load (addr + ucast idx) 1,
      Store (out + ucast idx) (load 1 (mem h) (addr + ucast idx))]"
    by (simp add: copy_elem_def)
  show ?case
  proof (cases "idx + 1 \<noteq> len")
    case True
    from "1.IH" [OF True] obtain body where
      b: "trace (read_loop addr out len (idx + 1) ?h1) = trace ?h1 @ body"
        "length body = 2 * Suc (unat (len - (idx + 1) - 1))" "list_all is_mem_access body"
      by blast
    have "read_loop addr out len idx h = read_loop addr out len (idx + 1) ?h1"
      using True by (subst read_loop.simps) simp
    with b t1 loop_count_step [OF True] show ?thesis by simp
  next
    case False
    have "read_loop addr out len idx h = ?h1"
      using False by (subst read_loop.simps) simp
    with t1 loop_count_last [OF False] show ?thesis by simp
  qed
qed

lemma erase_loop_trace:
  "\<exists>body. trace (erase_loop addr len idx h) = trace h @ body \<and>
          length body = 2 * Suc (unat (len - idx - 1)) \<and> list_all is_erase_step body"
proof (induction addr len idx h rule: erase_loop.induct)
  case (1 addr len idx h)
  let ?h1 = "WFI (zero_word (addr + 4 * ucast idx) h)"
  have t1: "trace ?h1 = trace h @ [Store (addr + 4 * ucast idx) [0, 0, 0, 0], Wfi]"
    by (simp add: WFI_def zero_word_def)
  show ?case
  proof (cases "idx + 1 \<noteq> len")
    case True
    from "1.IH" [OF True] obtain body where
      b: "trace (erase_loop addr len (idx + 1) ?h1) = trace ?h1 @ body"
        "length body = 2 * Suc (unat (len - (idx + 1) - 1))" "list_all is_erase_step body"
      by blast
    have "erase_loop addr len idx h = erase_loop addr len (idx + 1) ?h1"
      using True by (subst erase_loop.simps) simp
    with b t1 loop_count_step [OF True] show ?thesis by simp
  next
    case False
    have "erase_loop addr len idx h = ?h1"
      using False by (subst erase_loop.simps) simp
    with t1 loop_count_last [OF False] show ?thesis by simp
  qed
qed

lemma erase_loop_regs:
  "SR (erase_loop addr len idx h) = SR h \<and> PECR (erase_loop addr len idx h) = PECR h \<and>
   sr_reads (erase_loop addr len idx h) = sr_reads h"
proof (induction addr len idx h rule: erase_loop.induct)
  case (1 addr len idx h)
  show ?case
  proof (cases "idx + 1 \<noteq> len")
    case True
    with "1.IH" [OF True] show ?thesis
      by (subst (1 2 3) erase_loop.simps) (simp add: WFI_def zero_word_def)
  next
    case False
    then show ?thesis by (subst (1 2 3) erase_loop.simps) (simp add: WFI_def zero_word_def)
  qed
qed

lemma erase_ok_trace:
  assumes er: "eventually_ready c (SR h)"
    and al: "startOffset mod 4 = 0"
    and nc: "\<not> start e + ucast startOffset + ucast len * 4 < start e + ucast len * 4"
  shows "\<exists>h' body. erase c e startOffset len h = Some (SEEPROM_OK, h') \<and>
           SR h' = SR h \<and>
           PECR h' = (PECR h OR FLASH_PECR_ERASE c) AND NOT (FLASH_PECR_ERASE c)
                       OR FLASH_PECR_PELOCK c \<and>
           trace h' = trace h @ [KeyWrite PEKEY_VALUE_1, KeyWrite PEKEY_VALUE_2,
                                 PecrWrite (PECR h OR FLASH_PECR_ERASE c)] @ body
                        @ [PecrWrite ((PECR h OR FLASH_PECR_ERASE c) AND NOT (FLASH_PECR_ERASE c)),
                           PecrWrite (PECR h')] \<and>
           length body = 2 * Suc (unat (len - 1)) \<and>
           list_all is_erase_step body \<and>
           (\<exists>k. mem h' = mem (erase_loop (start e + ucast startOffset) len 0 (write_PECR (PECR h OR FLASH_PECR_ERASE c) (h\<lparr>sr_reads := k,
          trace := trace h @ [KeyWrite PEKEY_VALUE_1, KeyWrite PEKEY_VALUE_2]\<rparr>))))"
proof -
  from unlock_returns [OF er] obtain k1 where
    u: "unlockEEPROM c h = Some (h\<lparr>sr_reads := k1,
          trace := trace h @ [KeyWrite PEKEY_VALUE_1, KeyWrite PEKEY_VALUE_2]\<rparr>)" ..
  define h1 where "h1 = h\<lparr>sr_reads := k1,
          trace := trace h @ [KeyWrite PEKEY_VALUE_1, KeyWrite PEKEY_VALUE_2]\<rparr>"
  define h2 where "h2 = write_PECR (PECR h1 OR FLASH_PECR_ERASE c) h1"
  define h3 where "h3 = erase_loop (start e + ucast startOffset) len 0 h2"
  define h4 where "h4 = write_PECR (PECR h3 AND NOT (FLASH_PECR_ERASE c)) h3"
  from erase_loop_trace [of "start e + ucast startOffset" len 0 h2] obtain body where
    b: "trace h3 = trace h2 @ body" "length body = 2 * Suc (unat (len - 1))"
      "list_all is_erase_step body"
    by (auto simp: h3_def)
  have r3: "SR h3 = SR h2" "PECR h3 = PECR h2"
    using erase_loop_regs [of "start e + ucast startOffset" len 0 h2] by (simp_all add: h3_def)
  have er4: "eventually_ready c (SR h4)"
    using er r3 by (simp add: h4_def h2_def h1_def write_PECR_def)
  from lock_returns [OF er4] obtain k5 where
    l: "lockEEPROM c h4 = Some (h4\<lparr>sr_reads := k5, PECR := PECR h4 OR FLASH_PECR_PELOCK c,
            trace := trace h4 @ [PecrWrite (PECR h4 OR FLASH_PECR_PELOCK c)]\<rparr>)" ..
  define h5 where "h5 = h4\<lparr>sr_reads := k5, PECR := PECR h4 OR FLASH_PECR_PELOCK c,
            trace := trace h4 @ [PecrWrite (PECR h4 OR FLASH_PECR_PELOCK c)]\<rparr>"
  have w: "erase c e startOffset len h = Some (SEEPROM_OK, h5)"
    unfolding erase_def Let_def
    by (simp only: al nc if_False not_not refl if_True simp_thms u h1_def [symmetric] h2_def [symmetric]
        h3_def [symmetric] h4_def [symmetric] l h5_def [symmetric] bind.bind_lunit)
  have p2: "PECR h2 = PECR h OR FLASH_PECR_ERASE c" by (simp add: h2_def h1_def write_PECR_def)
  have p4: "PECR h4 = (PECR h OR FLASH_PECR_ERASE c) AND NOT (FLASH_PECR_ERASE c)"
    using r3 p2 by (simp add: h4_def write_PECR_def)
  have "SR h5 = SR h" using r3 by (simp add: h5_def h4_def h2_def h1_def write_PECR_def)
  moreover have p5: "PECR h5 = (PECR h OR FLASH_PECR_ERASE c) AND NOT (FLASH_PECR_ERASE c)
                       OR FLASH_PECR_PELOCK c"
    using p4 by (simp add: h5_def)
  moreover have "trace h5 = trace h @ [KeyWrite PEKEY_VALUE_1, KeyWrite PEKEY_VALUE_2,
                                 PecrWrite (PECR h OR FLASH_PECR_ERASE c)] @ body
                        @ [PecrWrite ((PECR h OR FLASH_PECR_ERASE c) AND NOT (FLASH_PECR_ERASE c)),
                           PecrWrite (PECR h5)]"
    using b(1) r3 p2 p4 by (simp add: h5_def h4_def h2_def h1_def write_PECR_def)
  moreover have "mem h5 = mem (erase_loop (start e + ucast startOffset) len 0 (write_PECR (PECR h OR FLASH_PECR_ERASE c) (h\<lparr>sr_reads := k1,
          trace := trace h @ [KeyWrite PEKEY_VALUE_1, KeyWrite PEKEY_VALUE_2]\<rparr>)))"
    by (simp add: h5_def h4_def h3_def h2_def h1_def write_PECR_def)
  ultimately show ?thesis using w b(2,3) by blast
qed

lemma unat_ucast_16_32: "unat (ucast (x :: 16 word) :: 32 word) = unat x"
proof -
  have "unat x < 2 ^ 16" using unsigned_less [of x] by simp
  then have "unat x < 2 ^ 32" by simp
  then show ?thesis by (simp add: unsigned_ucast_eq take_bit_nat_eq_self)
qed

lemma no_wrap_no_overflow:
  fixes s :: "32 word" and so len :: "16 word"
  assumes "unat s + unat so + unat len < 2 ^ 32"
  shows "\<not> s + ucast so + ucast len < s + ucast len"
proof -
  have a: "unat (ucast so :: 32 word) = unat so" "unat (ucast len :: 32 word) = unat len"
    by (rule unat_ucast_16_32)+
  have "unat (s + ucast len) = unat s + unat len"
    using assms a by (simp add: unat_word_ariths)
  moreover have "unat (s + ucast so + ucast len) = unat s + unat so + unat len"
    using assms a by (simp add: unat_word_ariths)
  ultimately show ?thesis by (simp add: word_less_nat_alt)
qed

lemma unat_4_ucast: "unat (4 * ucast (idx :: 16 word) :: 32 word) = 4 * unat idx"
proof -
  have "unat idx < 2 ^ 16" using unsigned_less [of idx] by simp
  then have "4 * unat idx < 2 ^ 32" by simp
  then show ?thesis by (simp add: unat_word_ariths unat_ucast_16_32)
qed

lemma in_word_at:
  fixes a addr :: "32 word" and idx :: "16 word"
  shows "unat (a - (addr + 4 * ucast idx)) < 4
    \<longleftrightarrow> 4 * unat idx \<le> unat (a - addr) \<and> unat (a - addr) < 4 * unat idx + 4"
proof -
  have i: "unat idx < 2 ^ 16" using unsigned_less [of idx] by simp
  have d: "unat (a - addr) < 2 ^ 32" using unsigned_less [of "a - addr"] by simp
  have e: "a - (addr + 4 * ucast idx) = (a - addr) - 4 * ucast idx" by simp
  show ?thesis
    unfolding e using i d
    by (auto simp: unat_sub_if' unat_4_ucast)
qed

lemma store_zero_word:
  "store m d [0, 0, 0, 0] a = (if unat (a - d) < 4 then 0 else m a)"
proof -
  have "[0, 0, 0, 0 :: byte] ! i = 0" if "i < 4" for i
    using that by (cases i rule: nat.exhaust; simp add: nth_Cons split: nat.splits)
  then show ?thesis by (simp add: store_def)
qed

lemma erase_loop_mem:
  "unat idx + Suc (unat (len - idx - 1)) \<le> 65536 \<Longrightarrow>
   mem (erase_loop addr len idx h) a =
     (if 4 * unat idx \<le> unat (a - addr) \<and>
         unat (a - addr) < 4 * (unat idx + Suc (unat (len - idx - 1)))
      then 0 else mem h a)"
proof (induction addr len idx h rule: erase_loop.induct)
  case (1 addr len idx h)
  let ?h1 = "WFI (zero_word (addr + 4 * ucast idx) h)"
  have m1: "mem ?h1 a = (if 4 * unat idx \<le> unat (a - addr) \<and> unat (a - addr) < 4 * unat idx + 4
                         then 0 else mem h a)"
    by (simp add: WFI_def zero_word_def store_zero_word in_word_at)
  show ?case
  proof (cases "idx + 1 \<noteq> len")
    case True
    note st = loop_count_step [OF True]
    have "unat idx + 1 < 65536" using "1.prems" st by simp
    then have u: "unat (idx + 1) = unat idx + 1" by (simp add: unat_word_ariths)
    have "unat (idx + 1) + Suc (unat (len - (idx + 1) - 1)) \<le> 65536"
      using "1.prems" st u by simp
    from "1.IH" [OF True this]
    have "mem (erase_loop addr len (idx + 1) ?h1) a =
      (if 4 * unat (idx + 1) \<le> unat (a - addr) \<and>
          unat (a - addr) < 4 * (unat (idx + 1) + Suc (unat (len - (idx + 1) - 1)))
       then 0 else mem ?h1 a)" .
    moreover have "erase_loop addr len idx h = erase_loop addr len (idx + 1) ?h1"
      using True by (subst erase_loop.simps) simp
    ultimately show ?thesis unfolding m1 u st by auto
  next
    case False
    have "erase_loop addr len idx h = ?h1"
      using False by (subst erase_loop.simps) simp
    then show ?thesis unfolding loop_count_last [OF False] using m1 by simp
  qed
qed

lemma unat_m1_16: "unat (- 1 :: 16 word) = 65535"
  by (simp add: unat_minus_one unsigned_minus_1_eq_mask mask_eq_exp_minus_1)

lemma erase_loop_mem_from_0:
  "mem (erase_loop addr len 0 h) a =
     (if unat (a - addr) < 4 * (if len = 0 then 65536 else unat len) then 0 else mem h a)"
proof (cases "len = 0")
  case True
  with erase_loop_mem [of 0 len addr h a] show ?thesis by (simp add: unat_m1_16)
next
  case False
  then have "unat (len - 1) = unat len - 1" by (rule unat_minus_one)
  moreover have "0 < unat len" using False by (simp add: unat_gt_0)
  moreover have "unat len < 65536" using unsigned_less [of len] by simp
  ultimately show ?thesis using erase_loop_mem [of 0 len addr h a] False by simp
qed

lemma erase_zeroes_words:
  assumes "eventually_ready c (SR h)"
    and "startOffset mod 4 = 0"
    and "\<not> start e + ucast startOffset + ucast len * 4 < start e + ucast len * 4"
  shows "\<exists>h'. erase c e startOffset len h = Some (SEEPROM_OK, h') \<and>
     mem h' = (\<lambda>a. if unat (a - (start e + ucast startOffset))
                          < 4 * (if len = 0 then 65536 else unat len)
                     then 0 else mem h a)"
proof -
  from erase_ok_trace [OF assms] obtain h' k where
    a: "erase c e startOffset len h = Some (SEEPROM_OK, h')"
      "mem h' = mem (erase_loop (start e + ucast startOffset) len 0
         (write_PECR (PECR h OR FLASH_PECR_ERASE c) (h\<lparr>sr_reads := k,
          trace := trace h @ [KeyWrite PEKEY_VALUE_1, KeyWrite PEKEY_VALUE_2]\<rparr>)))"
    by blast
  have "mem h' = (\<lambda>a. if unat (a - (start e + ucast startOffset))
                          < 4 * (if len = 0 then 65536 else unat len)
                     then 0 else mem h a)"
    unfolding a(2) by (rule ext) (simp add: erase_loop_mem_from_0 write_PECR_def)
  with a(1) show ?thesis by blast
qed

lemma write_len0:
  assumes "eventually_ready c (SR h)"
  shows "\<exists>h'. write' c e 0 val 0 h = Some (SEEPROM_OK, h') \<and> mem h' = mem h \<and>
     trace h' = trace h @ [KeyWrite PEKEY_VALUE_1, KeyWrite PEKEY_VALUE_2, PecrWrite (PECR h')]"
proof -
  from unlock_returns [OF assms] obtain k1 where
    u: "unlockEEPROM c h = Some (h\<lparr>sr_reads := k1,
          trace := trace h @ [KeyWrite PEKEY_VALUE_1, KeyWrite PEKEY_VALUE_2]\<rparr>)" ..
  let ?h1 = "h\<lparr>sr_reads := k1,
          trace := trace h @ [KeyWrite PEKEY_VALUE_1, KeyWrite PEKEY_VALUE_2]\<rparr>"
  have "eventually_ready c (SR ?h1)" using assms by simp
  from lock_returns [OF this] obtain k5 where
    l: "lockEEPROM c ?h1 = Some (?h1\<lparr>sr_reads := k5, PECR := PECR ?h1 OR FLASH_PECR_PELOCK c,
            trace := trace ?h1 @ [PecrWrite (PECR ?h1 OR FLASH_PECR_PELOCK c)]\<rparr>)" ..
  show ?thesis by (simp add: write'_def u l)
qed

lemma idle_eventually_ready: "eventually_ready stm32l051 (SR (idle m))"
  by (auto simp: eventually_ready_def idle_def stm32l051_def)

lemma unat_ucast_4: "unat (ucast (len :: 16 word) * 4 :: 32 word) = 4 * unat len"
  using unat_4_ucast [of len] by (simp add: mult.commute)

lemma wrap_guard_bytes:
  fixes s :: "32 word" and so len :: "16 word"
  shows "s + ucast so + ucast len < s + ucast len
    \<longleftrightarrow> (unat s + unat so + unat len) mod 2 ^ 32 < (unat s + unat len) mod 2 ^ 32"
proof -
  have "unat (s + ucast so + ucast len) = (unat s + unat so + unat len) mod 2 ^ 32"
    by (simp add: unat_word_ariths unat_ucast_16_32 mod_simps)
  moreover have "unat (s + ucast len) = (unat s + unat len) mod 2 ^ 32"
    by (simp add: unat_word_ariths unat_ucast_16_32)
  ultimately show ?thesis by (simp only: word_less_nat_alt)
qed

lemma wrap_guard_words:
  fixes s :: "32 word" and so len :: "16 word"
  shows "s + ucast so + ucast len * 4 < s + ucast len * 4
    \<longleftrightarrow> (unat s + unat so + 4 * unat len) mod 2 ^ 32 < (unat s + 4 * unat len) mod 2 ^ 32"
proof -
  have "unat (s + ucast so + ucast len * 4) = (unat s + unat so + 4 * unat len) mod 2 ^ 32"
    by (simp add: unat_word_ariths(1) unat_ucast_16_32 unat_ucast_4 mod_simps mult.commute)
  moreover have "unat (s + ucast len * 4) = (unat s + 4 * unat len) mod 2 ^ 32"
    by (simp add: unat_word_ariths(1) unat_ucast_4)
  ultimately show ?thesis by (simp only: word_less_nat_alt)
qed

section \<open>The bounds check\<close>

lemma write_not_OF:
  assumes "\<not> start e + ucast startOffset + ucast len < start e + ucast len"
    and "write' c e startOffset val len h = Some (st, h')"
  shows "st = SEEPROM_OK"
  using assms by (auto simp: write'_def Let_def split: bind_splits if_splits prod.splits)

lemma erase_not_OF:
  assumes "\<not> start e + ucast startOffset + ucast len * 4 < start e + ucast len * 4"
    and "erase c e startOffset len h = Some (st, h')"
  shows "st \<noteq> SEEPROM_OF"
  using assms by (auto simp: erase_def Let_def SEEPROM_OK_def SEEPROM_OF_def SEEPROM_NOK_def split: bind_splits if_splits prod.splits)

text \<open>
  C1. Sector with \<open>start = 0x1000\<close>, \<open>length = 64\<close>: the claim is that
  \<open>read(60, buf, 8)\<close> returns Overflow, since 60 + 8 = 68 exceeds the 64 bytes of the
  sector. The check of the code compares \<open>start + startOffset + len\<close> with
  \<open>start + len\<close> and never looks at \<open>length\<close>: the call returns \<open>SEEPROM_OK\<close>,
  whatever the buffer and the memory.
\<close>

theorem read_60_8_returns_ok:
  "fst (read \<lparr>start = 0x1000, length' = 64\<rparr> 60 output 8 h) = SEEPROM_OK \<and>
   fst (read \<lparr>start = 0x1000, length' = 64\<rparr> 60 output 8 h) \<noteq> SEEPROM_OF"
  by (simp add: read_def SEEPROM_OK_def SEEPROM_OF_def)

text \<open>
  C2. The bounds check of \<open>read\<close>, \<open>write\<close> and \<open>erase\<close> returns Overflow exactly
  when \<open>start + startOffset + lenBytes\<close>, computed modulo \<open>2^32\<close>, is strictly below
  \<open>start + lenBytes\<close>, computed modulo \<open>2^32\<close> as well (\<open>lenBytes = len * 4\<close> for
  \<open>erase\<close>, whose bounds check is reached when \<open>startOffset\<close> is a multiple of 4). It
  is a guard on the wrap-around of the address sum; the sector's \<open>length\<close> plays no
  part in it.
\<close>

theorem bounds_check_is_wrap_guard:
  "(fst (read e startOffset out len h) = SEEPROM_OF
      \<longleftrightarrow> (unat (start e) + unat startOffset + unat len) mod 2 ^ 32
            < (unat (start e) + unat len) mod 2 ^ 32) \<and>
   ((\<exists>h'. write' c e startOffset val len h = Some (SEEPROM_OF, h'))
      \<longleftrightarrow> (unat (start e) + unat startOffset + unat len) mod 2 ^ 32
            < (unat (start e) + unat len) mod 2 ^ 32) \<and>
   ((\<exists>h'. erase c e startOffset len h = Some (SEEPROM_OF, h'))
      \<longleftrightarrow> startOffset mod 4 = 0 \<and>
          (unat (start e) + unat startOffset + 4 * unat len) mod 2 ^ 32
            < (unat (start e) + 4 * unat len) mod 2 ^ 32)"
proof (intro conjI)
  show "fst (read e startOffset out len h) = SEEPROM_OF
      \<longleftrightarrow> (unat (start e) + unat startOffset + unat len) mod 2 ^ 32
            < (unat (start e) + unat len) mod 2 ^ 32"
    unfolding wrap_guard_bytes [symmetric]
    by (simp add: read_def SEEPROM_OK_def SEEPROM_OF_def)
  show "(\<exists>h'. write' c e startOffset val len h = Some (SEEPROM_OF, h'))
      \<longleftrightarrow> (unat (start e) + unat startOffset + unat len) mod 2 ^ 32
            < (unat (start e) + unat len) mod 2 ^ 32"
    unfolding wrap_guard_bytes [symmetric]
  proof
    assume "\<exists>h'. write' c e startOffset val len h = Some (SEEPROM_OF, h')"
    then obtain h' where w: "write' c e startOffset val len h = Some (SEEPROM_OF, h')" ..
    show "start e + ucast startOffset + ucast len < start e + ucast len"
    proof (rule ccontr)
      assume "\<not> ?thesis"
      from write_not_OF [OF this w] show False by (simp add: SEEPROM_OK_def SEEPROM_OF_def)
    qed
  next
    assume "start e + ucast startOffset + ucast len < start e + ucast len"
    then show "\<exists>h'. write' c e startOffset val len h = Some (SEEPROM_OF, h')"
      by (simp add: write'_def)
  qed
  show "(\<exists>h'. erase c e startOffset len h = Some (SEEPROM_OF, h'))
      \<longleftrightarrow> startOffset mod 4 = 0 \<and>
          (unat (start e) + unat startOffset + 4 * unat len) mod 2 ^ 32
            < (unat (start e) + 4 * unat len) mod 2 ^ 32"
    unfolding wrap_guard_words [symmetric]
  proof
    assume "\<exists>h'. erase c e startOffset len h = Some (SEEPROM_OF, h')"
    then obtain h' where w: "erase c e startOffset len h = Some (SEEPROM_OF, h')" ..
    have a: "startOffset mod 4 = 0"
      using w by (auto simp: erase_def SEEPROM_OF_def SEEPROM_NOK_def split: if_splits)
    have b: "start e + ucast startOffset + ucast len * 4 < start e + ucast len * 4"
    proof (rule ccontr)
      assume "\<not> ?thesis"
      from erase_not_OF [OF this w] show False by simp
    qed
    from a b show "startOffset mod 4 = 0 \<and>
          start e + ucast startOffset + ucast len * 4 < start e + ucast len * 4" ..
  next
    assume "startOffset mod 4 = 0 \<and>
          start e + ucast startOffset + ucast len * 4 < start e + ucast len * 4"
    then show "\<exists>h'. erase c e startOffset len h = Some (SEEPROM_OF, h')"
      by (simp add: erase_def)
  qed
qed

text \<open>
  C9. When \<open>start + startOffset + len\<close> stays below \<open>2^32\<close> for all 16-bit
  \<open>startOffset\<close> and \<open>len\<close> (the platform's base \<open>0x08080000\<close> is such a start),
  the Overflow branch of \<open>read\<close> and \<open>write\<close> cannot be taken: \<open>read\<close> returns
  \<open>SEEPROM_OK\<close> for every pair, \<open>write\<close> never returns \<open>SEEPROM_OF\<close>, and it returns
  \<open>SEEPROM_OK\<close> whenever the controller lets its busy waits end.
\<close>

theorem overflow_branch_unreachable:
  assumes "\<forall>(startOffset :: 16 word) (len :: 16 word). unat (start e) + unat startOffset + unat len < 2 ^ 32"
  shows "\<forall>(startOffset :: 16 word) (len :: 16 word).
    fst (read e startOffset out len h) = SEEPROM_OK \<and>
    (\<forall>h'. write' c e startOffset val len h \<noteq> Some (SEEPROM_OF, h')) \<and>
    (eventually_ready c (SR h) \<longrightarrow> (\<exists>h'. write' c e startOffset val len h = Some (SEEPROM_OK, h')))"
proof (intro allI)
  fix startOffset len :: "16 word"
  from assms have "unat (start e) + unat startOffset + unat len < 2 ^ 32" by blast
  then have nc: "\<not> start e + ucast startOffset + ucast len < start e + ucast len"
    by (rule no_wrap_no_overflow)
  have "fst (read e startOffset out len h) = SEEPROM_OK"
    using nc by (simp add: read_def)
  moreover have "write' c e startOffset val len h \<noteq> Some (SEEPROM_OF, h')" for h'
    using write_not_OF [OF nc, of c val h SEEPROM_OF h'] by (auto simp: SEEPROM_OF_def SEEPROM_OK_def)
  moreover have "\<exists>h'. write' c e startOffset val len h = Some (SEEPROM_OK, h')"
    if "eventually_ready c (SR h)"
    using write_ok_trace [OF that nc, of val] by blast
  ultimately show "fst (read e startOffset out len h) = SEEPROM_OK \<and>
    (\<forall>h'. write' c e startOffset val len h \<noteq> Some (SEEPROM_OF, h')) \<and>
    (eventually_ready c (SR h) \<longrightarrow> (\<exists>h'. write' c e startOffset val len h = Some (SEEPROM_OK, h')))"
    by blast
qed

theorem overflow_branch_unreachable_witness:
  "(\<forall>(startOffset :: 16 word) (len :: 16 word).
      unat (start \<lparr>start = 0x08080000, length' = 2048\<rparr>) + unat startOffset + unat len < 2 ^ 32) \<and>
   eventually_ready stm32l051 (SR (idle (\<lambda>a. 0xFF))) \<and>
   fst (read \<lparr>start = 0x08080000, length' = 2048\<rparr> 0xFFFF 0x20000000 0xFFFF (idle (\<lambda>a. 0xFF)))
     = SEEPROM_OK \<and>
   (\<exists>h'. write' stm32l051 \<lparr>start = 0x08080000, length' = 2048\<rparr> 0xFFFF 0x20000000 0xFFFF
           (idle (\<lambda>a. 0xFF)) = Some (SEEPROM_OK, h'))"
proof -
  have b: "\<forall>(startOffset :: 16 word) (len :: 16 word).
      unat (start \<lparr>start = 0x08080000, length' = 2048\<rparr>) + unat startOffset + unat len < 2 ^ 32"
  proof (intro allI)
    fix startOffset len :: "16 word"
    have "unat startOffset < 2 ^ 16" "unat len < 2 ^ 16"
      using unsigned_less [of startOffset] unsigned_less [of len] by simp_all
    then show "unat (start \<lparr>start = 0x08080000, length' = 2048\<rparr>) + unat startOffset + unat len
        < 2 ^ 32" by simp
  qed
  have r: "eventually_ready stm32l051 (SR (idle (\<lambda>a. 0xFF)))" by (rule idle_eventually_ready)
  from overflow_branch_unreachable [OF b, of "0x20000000" "idle (\<lambda>a. 0xFF)" stm32l051 "0x20000000"]
    b r show ?thesis by blast
qed

section \<open>The chunks of write\<close>

text \<open>
  C3. The claim is that \<open>write\<close> followed by \<open>read\<close> at the same offset gives the
  written bytes back. With a sector of 64 bytes at \<open>0x08080000\<close>, the one-byte buffer
  \<open>[0xAA]\<close> at \<open>0x20000000\<close> and \<open>startOffset = 4\<close> (regime \<open>len < 2\<close>), both calls
  return \<open>SEEPROM_OK\<close> and the byte read back is \<open>0\<close>: the 1-byte group of \<open>write\<close>
  takes its source at \<open>value + startOffset\<close>, four bytes past the buffer.
\<close>

theorem write_read_roundtrip_offset4:
  "map_option
     (\<lambda>(s1, h1).
        (s1,
         fst (read \<lparr>start = 0x08080000, length' = 64\<rparr> 4 0x20000100 1 h1),
         load 1 (mem (snd (read \<lparr>start = 0x08080000, length' = 64\<rparr> 4 0x20000100 1 h1)))
           0x20000100))
     (write' stm32l051 \<lparr>start = 0x08080000, length' = 64\<rparr> 4 0x20000000 1
        (idle (store (\<lambda>a. 0) 0x20000000 [0xAA])))
    = Some (SEEPROM_OK, SEEPROM_OK, [0])
   \<and> load 1 (store (\<lambda>a. 0) 0x20000000 [0xAA]) 0x20000000 = [0xAA]"
  by (simp add: write'_def read_def unlockEEPROM_def lockEEPROM_def
      write_T_def write_T_loop.simps read_loop.simps wait_not_busy copy_elem_def
      write_PEKEYR_def write_PECR_def stm32l051_def idle_def load_def store_def)

text \<open>
  C4. The claim is that destination byte \<open>start + startOffset + i\<close> receives
  \<open>value[i]\<close> for every \<open>i < len\<close>. With \<open>startOffset = 0\<close>, \<open>len = 6\<close> and the
  bytes \<open>1, ..., 10\<close> at \<open>value\<close>, the 4-byte group writes \<open>1, 2, 3, 4\<close> and the 2-byte
  group then reads its source at \<open>(uint16_t*)value + 4\<close>, eight bytes past \<open>value\<close>: the
  sector receives \<open>1, 2, 3, 4, 9, 10\<close>.
\<close>

theorem write_six_bytes_source_offset:
  "map_option (\<lambda>(st, h'). (st, load 6 (mem h') 0x08080000))
     (write' stm32l051 \<lparr>start = 0x08080000, length' = 64\<rparr> 0 0x20000000 6
        (idle (store (\<lambda>a. 0) 0x20000000 [1, 2, 3, 4, 5, 6, 7, 8, 9, 10])))
    = Some (SEEPROM_OK, [1, 2, 3, 4, 9, 10])"
  by (simp add: write'_def unlockEEPROM_def lockEEPROM_def
      write_T_def write_T_loop.simps wait_not_busy copy_elem_def upt_4 upt_2 upt_6 unat_m1_32
      write_PEKEYR_def write_PECR_def stm32l051_def idle_def load_def store_def)

section \<open>Zero lengths\<close>

text \<open>
  C5. The claim is that \<open>read(0, buf, 0)\<close> and \<open>write(0, buf, 0)\<close> access no memory
  and return Ok. \<open>read(0, buf, 0)\<close> does return \<open>SEEPROM_OK\<close>, but its
  \<open>do ... while (idx != len)\<close> loop runs until the 16-bit index is back at 0: it appends
  65536 loads and 65536 stores to the trace. (\<open>write\<close> guards each group with
  \<open>if (len4)\<close>, \<open>if (len2)\<close>, \<open>if (len)\<close> and accesses no memory at length 0:
  lemma \<open>write_len0\<close>.)
\<close>

theorem read_len0_runs_loop_65536_times:
  "fst (read e 0 out 0 h) = SEEPROM_OK \<and>
   (\<exists>body. trace (snd (read e 0 out 0 h)) = trace h @ body \<and>
            length body = 2 * 65536 \<and> list_all is_mem_access body)"
proof -
  have r: "read e 0 out 0 h = (SEEPROM_OK, read_loop (start e) out 0 0 h)"
    by (simp add: read_def)
  from read_loop_trace [of "start e" out 0 0 h] r show ?thesis
    by (simp add: unat_m1_16)
qed

text \<open>
  C6. The claim is that \<open>erase\<close>, at an aligned offset that passes the bounds check and
  for any \<open>len\<close>, zeroes the \<open>len\<close> words from \<open>start + startOffset\<close> and modifies
  nothing else. At \<open>len = 0\<close> the loop of \<open>erase\<close> runs 65536 times: the call returns
  \<open>SEEPROM_OK\<close> after 65536 word stores, and the 262144 bytes from
  \<open>start + startOffset\<close> are zero afterwards. (For \<open>len \<ge> 1\<close> the bytes zeroed are
  the \<open>4 * len\<close> bytes of the claim and no other: lemma \<open>erase_zeroes_words\<close>.)
\<close>

theorem erase_len0_erases_65536_words:
  assumes "eventually_ready c (SR h)"
    and "startOffset mod 4 = 0"
    and "\<not> start e + ucast startOffset < start e"
  shows "\<exists>h' body. erase c e startOffset 0 h = Some (SEEPROM_OK, h') \<and>
     trace h' = trace h @ [KeyWrite PEKEY_VALUE_1, KeyWrite PEKEY_VALUE_2,
                           PecrWrite (PECR h OR FLASH_PECR_ERASE c)] @ body
                  @ [PecrWrite ((PECR h OR FLASH_PECR_ERASE c) AND NOT (FLASH_PECR_ERASE c)),
                     PecrWrite (PECR h')] \<and>
     length body = 2 * 65536 \<and> list_all is_erase_step body \<and>
     mem h' = (\<lambda>a. if unat (a - (start e + ucast startOffset)) < 4 * 65536 then 0 else mem h a)"
proof -
  have nc: "\<not> start e + ucast startOffset + ucast (0 :: 16 word) * 4 < start e + ucast (0 :: 16 word) * 4"
    using assms(3) by simp
  from erase_ok_trace [OF assms(1,2) nc] obtain h' body k where
    a: "erase c e startOffset 0 h = Some (SEEPROM_OK, h')"
      "trace h' = trace h @ [KeyWrite PEKEY_VALUE_1, KeyWrite PEKEY_VALUE_2,
                           PecrWrite (PECR h OR FLASH_PECR_ERASE c)] @ body
                  @ [PecrWrite ((PECR h OR FLASH_PECR_ERASE c) AND NOT (FLASH_PECR_ERASE c)),
                     PecrWrite (PECR h')]"
      "length body = 2 * Suc (unat (0 - 1 :: 16 word))" "list_all is_erase_step body"
      "mem h' = mem (erase_loop (start e + ucast startOffset) 0 0
         (write_PECR (PECR h OR FLASH_PECR_ERASE c) (h\<lparr>sr_reads := k,
          trace := trace h @ [KeyWrite PEKEY_VALUE_1, KeyWrite PEKEY_VALUE_2]\<rparr>)))"
    by blast
  have "mem h' = (\<lambda>a. if unat (a - (start e + ucast startOffset)) < 4 * 65536 then 0 else mem h a)"
    unfolding a(5) by (rule ext) (simp add: erase_loop_mem_from_0 write_PECR_def)
  moreover have "length body = 2 * 65536" using a(3) by (simp add: unat_m1_16)
  ultimately show ?thesis using a(1,2,4) by blast
qed

theorem erase_len0_erases_65536_words_witness:
  "eventually_ready stm32l051 (SR (idle (\<lambda>a. 0xFF))) \<and>
   (0 :: 16 word) mod 4 = 0 \<and>
   \<not> start \<lparr>start = 0x08080000, length' = 64\<rparr> + ucast (0 :: 16 word)
       < start \<lparr>start = 0x08080000, length' = 64\<rparr> \<and>
   (\<exists>h'. erase stm32l051 \<lparr>start = 0x08080000, length' = 64\<rparr> 0 0 (idle (\<lambda>a. 0xFF))
            = Some (SEEPROM_OK, h') \<and>
         mem h' 0x08080004 = 0 \<and> mem h' 0x080BFFFF = 0 \<and> mem h' 0x080C0000 = 0xFF)"
proof -
  have r: "eventually_ready stm32l051 (SR (idle (\<lambda>a. 0xFF)))" by (rule idle_eventually_ready)
  have al: "(0 :: 16 word) mod 4 = 0" by simp
  have nc: "\<not> start \<lparr>start = 0x08080000, length' = 64\<rparr> + ucast (0 :: 16 word)
       < start \<lparr>start = 0x08080000, length' = 64\<rparr>" by simp
  from erase_len0_erases_65536_words [OF r al nc] obtain h' where
    e: "erase stm32l051 \<lparr>start = 0x08080000, length' = 64\<rparr> 0 0 (idle (\<lambda>a. 0xFF))
            = Some (SEEPROM_OK, h')"
    and m: "mem h' = (\<lambda>a. if unat (a - (start \<lparr>start = 0x08080000, length' = 64\<rparr> + ucast (0 :: 16 word))) < 4 * 65536
                      then 0 else mem (idle (\<lambda>a. 0xFF)) a)"
    by blast
  have "mem h' 0x08080004 = 0 \<and> mem h' 0x080BFFFF = 0 \<and> mem h' 0x080C0000 = 0xFF"
    unfolding m by (simp add: idle_def)
  with r al nc e show ?thesis by blast
qed

section \<open>The alignment check of erase\<close>

text \<open>
  C7. For every \<open>startOffset\<close> that is not a multiple of 4 and every \<open>len\<close>,
  \<open>erase\<close> returns the Misaligned status \<open>SEEPROM_NOK\<close>, which differs from
  \<open>SEEPROM_OF\<close>, and leaves the machine as it was: same memory, same \<open>PECR\<close>, no read of
  \<open>SR\<close>, and a trace with no new key write, register write or store.
\<close>

theorem erase_misaligned_no_mutation:
  assumes "startOffset mod 4 \<noteq> 0"
  shows "erase c e startOffset len h = Some (SEEPROM_NOK, h) \<and> SEEPROM_NOK \<noteq> SEEPROM_OF"
  using assms by (simp add: erase_def SEEPROM_NOK_def SEEPROM_OF_def)

theorem erase_misaligned_no_mutation_witness:
  "(2 :: 16 word) mod 4 \<noteq> 0 \<and>
   erase stm32l051 \<lparr>start = 0x08080000, length' = 64\<rparr> 2 1 (idle (\<lambda>a. 0xFF))
     = Some (SEEPROM_NOK, idle (\<lambda>a. 0xFF)) \<and>
   SEEPROM_NOK \<noteq> SEEPROM_OF"
proof -
  have m: "(2 :: 16 word) mod 4 \<noteq> 0" by simp
  from erase_misaligned_no_mutation [OF m] m show ?thesis by blast
qed

text \<open>
  C10. In \<open>erase\<close> the alignment check comes before the bounds check: when
  \<open>startOffset\<close> is not a multiple of 4 and the bounds guard would fire as well, the
  status is \<open>SEEPROM_NOK\<close> (Misaligned), never \<open>SEEPROM_OF\<close> (Overflow).
\<close>

theorem erase_alignment_before_bounds:
  assumes "startOffset mod 4 \<noteq> 0"
    and "start e + ucast startOffset + ucast len * 4 < start e + ucast len * 4"
  shows "erase c e startOffset len h = Some (SEEPROM_NOK, h) \<and>
         (\<forall>h'. erase c e startOffset len h \<noteq> Some (SEEPROM_OF, h'))"
  using assms by (simp add: erase_def SEEPROM_NOK_def SEEPROM_OF_def)

theorem erase_alignment_before_bounds_witness:
  "(1 :: 16 word) mod 4 \<noteq> 0 \<and>
   start \<lparr>start = 0xFFFFFFFF, length' = 64\<rparr> + ucast (1 :: 16 word) + ucast (0 :: 16 word) * 4
     < start \<lparr>start = 0xFFFFFFFF, length' = 64\<rparr> + ucast (0 :: 16 word) * 4 \<and>
   erase stm32l051 \<lparr>start = 0xFFFFFFFF, length' = 64\<rparr> 1 0 (idle (\<lambda>a. 0xFF))
     = Some (SEEPROM_NOK, idle (\<lambda>a. 0xFF)) \<and>
   (\<forall>h'. erase stm32l051 \<lparr>start = 0xFFFFFFFF, length' = 64\<rparr> 1 0 (idle (\<lambda>a. 0xFF))
     \<noteq> Some (SEEPROM_OF, h'))"
proof -
  have m: "(1 :: 16 word) mod 4 \<noteq> 0" by simp
  have b: "start \<lparr>start = 0xFFFFFFFF, length' = 64\<rparr> + ucast (1 :: 16 word) + ucast (0 :: 16 word) * 4
     < start \<lparr>start = 0xFFFFFFFF, length' = 64\<rparr> + ucast (0 :: 16 word) * 4" by simp
  from erase_alignment_before_bounds [OF m b] m b show ?thesis by blast
qed

section \<open>The lock protocol\<close>

text \<open>
  C8. Provided the controller lets the busy waits end, \<open>write\<close> and \<open>erase\<close> behave
  as follows. When the bounds check fails they return \<open>SEEPROM_OF\<close> with the machine
  untouched (no read of \<open>SR\<close>, no key, no store). Otherwise they return \<open>SEEPROM_OK\<close>,
  and what they add to the trace starts with the two unlock keys, in order, before any
  store or write of \<open>PECR\<close>, and ends with the write of \<open>PECR\<close> that sets
  \<open>PELOCK\<close>; \<open>PELOCK\<close> is set in \<open>PECR\<close> when the call returns.
\<close>

theorem mutating_calls_unlock_then_lock:
  assumes "eventually_ready c (SR h)"
  shows
   "(start e + ucast startOffset + ucast len < start e + ucast len
       \<longrightarrow> write' c e startOffset val len h = Some (SEEPROM_OF, h)) \<and>
    (\<not> start e + ucast startOffset + ucast len < start e + ucast len
       \<longrightarrow> (\<exists>h' body. write' c e startOffset val len h = Some (SEEPROM_OK, h') \<and>
             trace h' = trace h @ [KeyWrite PEKEY_VALUE_1, KeyWrite PEKEY_VALUE_2] @ body
                          @ [PecrWrite (PECR h')] \<and>
             list_all is_mem_access body \<and>
             PECR h' AND FLASH_PECR_PELOCK c = FLASH_PECR_PELOCK c)) \<and>
    (startOffset mod 4 = 0 \<and>
     start e + ucast startOffset + ucast len * 4 < start e + ucast len * 4
       \<longrightarrow> erase c e startOffset len h = Some (SEEPROM_OF, h)) \<and>
    (startOffset mod 4 = 0 \<and>
     \<not> start e + ucast startOffset + ucast len * 4 < start e + ucast len * 4
       \<longrightarrow> (\<exists>h' body. erase c e startOffset len h = Some (SEEPROM_OK, h') \<and>
             trace h' = trace h @ [KeyWrite PEKEY_VALUE_1, KeyWrite PEKEY_VALUE_2,
                                   PecrWrite (PECR h OR FLASH_PECR_ERASE c)] @ body
                          @ [PecrWrite ((PECR h OR FLASH_PECR_ERASE c) AND NOT (FLASH_PECR_ERASE c)),
                             PecrWrite (PECR h')] \<and>
             list_all is_erase_step body \<and>
             PECR h' AND FLASH_PECR_PELOCK c = FLASH_PECR_PELOCK c))"
proof (intro conjI impI)
  assume "start e + ucast startOffset + ucast len < start e + ucast len"
  then show "write' c e startOffset val len h = Some (SEEPROM_OF, h)"
    by (simp add: write'_def)
next
  assume nc: "\<not> start e + ucast startOffset + ucast len < start e + ucast len"
  from write_ok_trace [OF assms nc, of val] obtain h' body where
    a: "write' c e startOffset val len h = Some (SEEPROM_OK, h')"
      "PECR h' = PECR h OR FLASH_PECR_PELOCK c"
      "trace h' = trace h @ [KeyWrite PEKEY_VALUE_1, KeyWrite PEKEY_VALUE_2] @ body
                        @ [PecrWrite (PECR h')]"
      "list_all is_mem_access body"
    by blast
  have "PECR h' AND FLASH_PECR_PELOCK c = FLASH_PECR_PELOCK c"
    unfolding a(2) by (simp add: bit_eq_iff bit_and_iff bit_or_iff) 
  with a show "\<exists>h' body. write' c e startOffset val len h = Some (SEEPROM_OK, h') \<and>
             trace h' = trace h @ [KeyWrite PEKEY_VALUE_1, KeyWrite PEKEY_VALUE_2] @ body
                          @ [PecrWrite (PECR h')] \<and>
             list_all is_mem_access body \<and>
             PECR h' AND FLASH_PECR_PELOCK c = FLASH_PECR_PELOCK c"
    by blast
next
  assume "startOffset mod 4 = 0 \<and>
     start e + ucast startOffset + ucast len * 4 < start e + ucast len * 4"
  then show "erase c e startOffset len h = Some (SEEPROM_OF, h)"
    by (simp add: erase_def)
next
  assume "startOffset mod 4 = 0 \<and>
     \<not> start e + ucast startOffset + ucast len * 4 < start e + ucast len * 4"
  then have al: "startOffset mod 4 = 0"
    and nc: "\<not> start e + ucast startOffset + ucast len * 4 < start e + ucast len * 4"
    by simp_all
  from erase_ok_trace [OF assms al nc] obtain h' body where
    a: "erase c e startOffset len h = Some (SEEPROM_OK, h')"
      "PECR h' = (PECR h OR FLASH_PECR_ERASE c) AND NOT (FLASH_PECR_ERASE c)
                       OR FLASH_PECR_PELOCK c"
      "trace h' = trace h @ [KeyWrite PEKEY_VALUE_1, KeyWrite PEKEY_VALUE_2,
                                 PecrWrite (PECR h OR FLASH_PECR_ERASE c)] @ body
                        @ [PecrWrite ((PECR h OR FLASH_PECR_ERASE c) AND NOT (FLASH_PECR_ERASE c)),
                           PecrWrite (PECR h')]"
      "list_all is_erase_step body"
    by blast
  have "PECR h' AND FLASH_PECR_PELOCK c = FLASH_PECR_PELOCK c"
    unfolding a(2) by (simp add: bit_eq_iff bit_and_iff bit_or_iff)
  with a show "\<exists>h' body. erase c e startOffset len h = Some (SEEPROM_OK, h') \<and>
             trace h' = trace h @ [KeyWrite PEKEY_VALUE_1, KeyWrite PEKEY_VALUE_2,
                                   PecrWrite (PECR h OR FLASH_PECR_ERASE c)] @ body
                          @ [PecrWrite ((PECR h OR FLASH_PECR_ERASE c) AND NOT (FLASH_PECR_ERASE c)),
                             PecrWrite (PECR h')] \<and>
             list_all is_erase_step body \<and>
             PECR h' AND FLASH_PECR_PELOCK c = FLASH_PECR_PELOCK c"
    by blast
qed

theorem mutating_calls_unlock_then_lock_witness:
  "eventually_ready stm32l051 (SR (idle (\<lambda>a. 0xFF))) \<and>
   write' stm32l051 \<lparr>start = 0xFFFFFF00, length' = 64\<rparr> 0x100 0x20000000 4 (idle (\<lambda>a. 0xFF))
     = Some (SEEPROM_OF, idle (\<lambda>a. 0xFF)) \<and>
   erase stm32l051 \<lparr>start = 0xFFFFFF00, length' = 64\<rparr> 0x100 4 (idle (\<lambda>a. 0xFF))
     = Some (SEEPROM_OF, idle (\<lambda>a. 0xFF)) \<and>
   (\<exists>h' body. write' stm32l051 \<lparr>start = 0x08080000, length' = 64\<rparr> 8 0x20000000 7 (idle (\<lambda>a. 0xFF))
        = Some (SEEPROM_OK, h') \<and>
      trace h' = [KeyWrite PEKEY_VALUE_1, KeyWrite PEKEY_VALUE_2] @ body @ [PecrWrite (PECR h')] \<and>
      list_all is_mem_access body \<and> PECR h' AND 1 = 1) \<and>
   (\<exists>h' body. erase stm32l051 \<lparr>start = 0x08080000, length' = 64\<rparr> 8 2 (idle (\<lambda>a. 0xFF))
        = Some (SEEPROM_OK, h') \<and>
      trace h' = [KeyWrite PEKEY_VALUE_1, KeyWrite PEKEY_VALUE_2, PecrWrite 0x201] @ body
                   @ [PecrWrite 1, PecrWrite (PECR h')] \<and>
      list_all is_erase_step body \<and> PECR h' AND 1 = 1)"
proof -
  have r: "eventually_ready stm32l051 (SR (idle (\<lambda>a. 0xFF)))" by (rule idle_eventually_ready)
  note a = mutating_calls_unlock_then_lock [OF r,
      where e = "\<lparr>start = 0xFFFFFF00, length' = 64\<rparr>" and startOffset = "0x100" and len = 4
        and val = "0x20000000"]
  note b = mutating_calls_unlock_then_lock [OF r,
      where e = "\<lparr>start = 0x08080000, length' = 64\<rparr>" and startOffset = 8 and len = 7
        and val = "0x20000000"]
  note c = mutating_calls_unlock_then_lock [OF r,
      where e = "\<lparr>start = 0x08080000, length' = 64\<rparr>" and startOffset = 8 and len = 2
        and val = "0x20000000"]
  have 1: "write' stm32l051 \<lparr>start = 0xFFFFFF00, length' = 64\<rparr> 0x100 0x20000000 4 (idle (\<lambda>a. 0xFF))
     = Some (SEEPROM_OF, idle (\<lambda>a. 0xFF))"
    using a by simp
  have 2: "erase stm32l051 \<lparr>start = 0xFFFFFF00, length' = 64\<rparr> 0x100 4 (idle (\<lambda>a. 0xFF))
     = Some (SEEPROM_OF, idle (\<lambda>a. 0xFF))"
    using a by simp
  have 3: "\<exists>h' body. write' stm32l051 \<lparr>start = 0x08080000, length' = 64\<rparr> 8 0x20000000 7 (idle (\<lambda>a. 0xFF))
        = Some (SEEPROM_OK, h') \<and>
      trace h' = [KeyWrite PEKEY_VALUE_1, KeyWrite PEKEY_VALUE_2] @ body @ [PecrWrite (PECR h')] \<and>
      list_all is_mem_access body \<and> PECR h' AND 1 = 1"
    using b by (simp add: idle_def stm32l051_def)
  have 4: "\<exists>h' body. erase stm32l051 \<lparr>start = 0x08080000, length' = 64\<rparr> 8 2 (idle (\<lambda>a. 0xFF))
        = Some (SEEPROM_OK, h') \<and>
      trace h' = [KeyWrite PEKEY_VALUE_1, KeyWrite PEKEY_VALUE_2, PecrWrite 0x201] @ body
                   @ [PecrWrite 1, PecrWrite (PECR h')] \<and>
      list_all is_erase_step body \<and> PECR h' AND 1 = 1"
    using c by (simp add: idle_def stm32l051_def)
  from r 1 2 3 4 show ?thesis by blast
qed

end
